theory Spec2Isabelle
  imports Complex_Main
begin

section \<open>Python values\<close>

text \<open>
  The configuration fields hold dynamically typed Python values. The model keeps the
  runtime type of a value as its constructor. A finite \<open>float\<close> is a rational number
  and is carried as such (\<open>nan\<close> and the infinities are left out). Enum members are
  a class name with a member name.
\<close>

datatype pyval =
    PBool bool
  | PInt int
  | PFloat rat
  | PStr string
  | PEnum string string
  | PList "pyval list"

datatype pytype = TBool | TInt | TFloat | TStr | TEnum string | TList

datatype py_error = TypeError | KeyError | AttributeError | ValueError | OverflowError

fun type_of :: "pyval \<Rightarrow> pytype" where
  "type_of (PBool _) = TBool"
| "type_of (PInt _) = TInt"
| "type_of (PFloat _) = TFloat"
| "type_of (PStr _) = TStr"
| "type_of (PEnum c _) = TEnum c"
| "type_of (PList _) = TList"

text \<open>\<open>bool\<close> is a subclass of \<open>int\<close> in Python; the other types are unrelated.\<close>

definition issubclass :: "pytype \<Rightarrow> pytype \<Rightarrow> bool" where
  "issubclass a b = (a = b \<or> (a = TBool \<and> b = TInt))"

definition isinstance :: "pyval \<Rightarrow> pytype \<Rightarrow> bool" where
  "isinstance v t = issubclass (type_of v) t"

fun num_of :: "pyval \<Rightarrow> rat option" where
  "num_of (PBool b) = Some (if b then 1 else 0)"
| "num_of (PInt i) = Some (of_int i)"
| "num_of (PFloat q) = Some q"
| "num_of _ = None"

text \<open>
  Python's \<open>==\<close>: numbers (bool, int, float) compare by value across types, strings
  and enum members with their own kind, lists element by element.
\<close>

fun py_eq :: "pyval \<Rightarrow> pyval \<Rightarrow> bool" where
  "py_eq (PStr a) (PStr b) = (a = b)"
| "py_eq (PEnum c a) (PEnum d b) = (c = d \<and> a = b)"
| "py_eq (PList xs) (PList ys) = list_all2 py_eq xs ys"
| "py_eq a b = (case (num_of a, num_of b) of (Some x, Some y) \<Rightarrow> x = y | _ \<Rightarrow> False)"

text \<open>
  Python's \<open>round\<close> with one argument: the nearest integer, a tie going to the even
  neighbour.
\<close>

definition py_round :: "rat \<Rightarrow> int" where
  "py_round q =
     (let f = \<lfloor>q\<rfloor>; d = q - of_int f
      in if d < 1 / 2 then f
         else if 1 / 2 < d then f + 1
         else if even f then f else f + 1)"


section \<open>Configuration fields (config_system/field_base.py)\<close>

text \<open>
  The settings store of the host maps a group and a name to a raw string.
  \<open>Krita.read_setting\<close> returns \<open>None\<close> for an entry that is not stored.
\<close>

type_synonym settings = "string \<times> string \<rightharpoonup> string"

text \<open>
  What a call does to the outside is kept in a trace: calls of the field's own
  \<open>read()\<close>, raw reads and writes of the store, and runs of registered callbacks.
  Callbacks are client code; the model names each one by a number and records that it
  ran.
\<close>

datatype effect =
    FieldRead string string
  | ReadSetting string string
  | WriteSetting string string string
  | RunCallback nat

record world =
  store :: settings
  trace :: "effect list"

text \<open>
  A field: the attributes set by \<open>__init__\<close>, the callbacks registered so far, and
  the two abstract methods \<open>read\<close> and \<open>_to_string\<close> of the subclass. \<open>read\<close>
  returns the value from the store parsed to the field type, so it is a function of the
  store.
\<close>

record field =
  config_group :: string
  name :: string
  default :: pyval
  on_change_callbacks :: "nat list"
  read_impl :: "settings \<Rightarrow> pyval"
  to_string :: "pyval \<Rightarrow> string"

definition register_callback :: "nat \<Rightarrow> field \<Rightarrow> field" where
  "register_callback cb f = f\<lparr>on_change_callbacks := on_change_callbacks f @ [cb]\<rparr>"

definition field_read :: "field \<Rightarrow> world \<Rightarrow> pyval \<times> world" where
  "field_read f w =
     (read_impl f (store w),
      w\<lparr>trace := trace w @ [FieldRead (config_group f) (name f)]\<rparr>)"

definition read_setting :: "string \<Rightarrow> string \<Rightarrow> world \<Rightarrow> string option \<times> world" where
  "read_setting g n w = (store w (g, n), w\<lparr>trace := trace w @ [ReadSetting g n]\<rparr>)"

definition write_setting :: "string \<Rightarrow> string \<Rightarrow> string \<Rightarrow> world \<Rightarrow> world" where
  "write_setting g n v w =
     w\<lparr>store := (store w)((g, n) \<mapsto> v), trace := trace w @ [WriteSetting g n v]\<rparr>"

definition run_callbacks :: "nat list \<Rightarrow> world \<Rightarrow> world" where
  "run_callbacks cbs w = w\<lparr>trace := trace w @ map RunCallback cbs\<rparr>"

text \<open>
  \<open>_is_write_redundant\<close>: the raw entry is read only when the parsed value differs
  from the new one.
\<close>

definition is_write_redundant :: "field \<Rightarrow> pyval \<Rightarrow> world \<Rightarrow> bool \<times> world" where
  "is_write_redundant f v w =
     (let (cur, w1) = field_read f w
      in if py_eq cur v then (True, w1)
         else (let (raw, w2) = read_setting (config_group f) (name f) w1
               in (raw = None \<and> py_eq v (default f), w2)))"

text \<open>
  \<open>FieldBase.write\<close> (\<open>write\<close> is a reserved word here): the result is the exception raised, if any, together with the world the
  call leaves behind.
\<close>

definition field_write :: "field \<Rightarrow> pyval \<Rightarrow> world \<Rightarrow> py_error option \<times> world" where
  "field_write f v w =
     (if \<not> isinstance v (type_of (default f)) then (Some TypeError, w)
      else (let (redundant, w1) = is_write_redundant f v w
            in if redundant then (None, w1)
               else (None, run_callbacks (on_change_callbacks f)
                             (write_setting (config_group f) (name f) (to_string f v) w1))))"

definition reset_default :: "field \<Rightarrow> world \<Rightarrow> py_error option \<times> world" where
  "reset_default f w = field_write f (default f) w"

text \<open>The part of a trace that changes something: store writes and callback runs.\<close>

fun is_mutation :: "effect \<Rightarrow> bool" where
  "is_mutation (WriteSetting _ _ _) = True"
| "is_mutation (RunCallback _) = True"
| "is_mutation _ = False"

definition mutations :: "effect list \<Rightarrow> effect list" where
  "mutations es = filter is_mutation es"


section \<open>Global configuration (composer_utils/config/global_config.py)\<close>

text \<open>
  A parser turns a raw string of the store into a value of the field type and back.
  The parsers module is not among the sources, so the fields of \<open>Config\<close> take their
  parsers as parameters.
\<close>

record parser =
  parse_to :: "string \<Rightarrow> pyval option"
  parse_from :: "pyval \<Rightarrow> string"

text \<open>
  Modelled from the spec: \<open>ImmutableField\<close>, the concrete field class of \<open>Config\<close>, is
  missing from the sources. A persisted field is a (group, name, default, parser) tuple for
  one string entry of the store; reading an entry that is not stored gives the default, and
  a malformed entry fails soft to the default. The group name is a label only.
\<close>

definition ImmutableField :: "parser \<Rightarrow> string \<Rightarrow> pyval \<Rightarrow> field" where
  "ImmutableField p n d =
     \<lparr>config_group = ''ShortcutComposer'', name = n, default = d,
      on_change_callbacks = [],
      read_impl = (\<lambda>s. case s (''ShortcutComposer'', n) of
                           None \<Rightarrow> d
                         | Some raw \<Rightarrow> (case parse_to p raw of None \<Rightarrow> d | Some v \<Rightarrow> v)),
      to_string = parse_from p\<rparr>"

text \<open>
  The fields of class \<open>Config\<close>, in the order of the class body (the order of
  \<open>cls.__dict__.values()\<close>); \<open>ip\<close> and \<open>fp\<close> are the parsers for int and float.
\<close>

definition Config :: "parser \<Rightarrow> parser \<Rightarrow> field list" where
  "Config ip fp =
     [ImmutableField fp ''Short vs long press time'' (PFloat (3 / 10)),
      ImmutableField fp ''Tracker sensitivity scale'' (PFloat 1),
      ImmutableField ip ''Tracker deadzone'' (PInt 0),
      ImmutableField ip ''FPS limit'' (PInt 60),
      ImmutableField fp ''Pie global scale'' (PFloat 1),
      ImmutableField fp ''Pie icon global scale'' (PFloat 1),
      ImmutableField fp ''Pie deadzone global scale'' (PFloat 1),
      ImmutableField fp ''Pie animation time'' (PFloat (2 / 10))]"

text \<open>
  \<open>Config.reset_defaults\<close>: the loop over the fields; an exception of one
  \<open>reset_default\<close> ends the sweep.
\<close>

fun reset_defaults :: "field list \<Rightarrow> world \<Rightarrow> py_error option \<times> world" where
  "reset_defaults [] w = (None, w)"
| "reset_defaults (f # fs) w =
     (case reset_default f w of
        (Some e, w') \<Rightarrow> (Some e, w')
      | (None, w') \<Rightarrow> reset_defaults fs w')"

text \<open>
  Notions for the sweep: the store entry of a field, a field whose \<open>read\<close> looks at
  nothing but its own entry, and a field whose entry is stale (it is stored and reads as
  something other than the default), which is when writing the default is not redundant.
\<close>

definition key :: "field \<Rightarrow> string \<times> string" where
  "key f = (config_group f, name f)"

definition reads_own_entry :: "field \<Rightarrow> bool" where
  "reads_own_entry f = (\<forall>s s'. s (key f) = s' (key f) \<longrightarrow> read_impl f s = read_impl f s')"

definition stale :: "field \<Rightarrow> settings \<Rightarrow> bool" where
  "stale f s = (s (key f) \<noteq> None \<and> \<not> py_eq (read_impl f s) (default f))"

fun is_store_write :: "effect \<Rightarrow> bool" where
  "is_store_write (WriteSetting _ _ _) = True"
| "is_store_write _ = False"

definition store_writes :: "effect list \<Rightarrow> effect list" where
  "store_writes es = filter is_store_write es"

definition write_of_default :: "field \<Rightarrow> effect" where
  "write_of_default f = WriteSetting (config_group f) (name f) (to_string f (default f))"

text \<open>
  \<open>Config.get_sleep_time\<close>. The argument is what \<open>cls.FPS_LIMIT.read()\<close> returned, an
  int as the field's default 60 is one. \<open>1000/fps_limit\<close> is a float division followed
  by \<open>round\<close>; the quotient is taken exactly here. That agrees with the float
  computation: a quotient \<open>1000/n\<close> that is not itself a half-integer is at least
  \<open>1/(2|n|)\<close> away from the nearest one, far more than the rounding error of the
  division (and for an \<open>n\<close> too large for that, the quotient is far below 0.5 and
  rounds to 0 either way).
\<close>

definition get_sleep_time :: "int \<Rightarrow> int" where
  "get_sleep_time fps_limit =
     (if fps_limit \<noteq> 0 then py_round (1000 / of_int fps_limit) else 1)"

text \<open>
  Modelled from the spec: the parsers module is missing from the sources. Values are parsed
  from and to strings by a per-type parser; the two below are the ones for int and float on
  plain decimal strings (an optional minus sign and digits, for a float with an optional
  fraction, which is read as the decimal number it denotes). They are used only where a
  concrete field is evaluated.
\<close>

definition digit_of :: "char \<Rightarrow> nat option" where
  "digit_of c =
     (let k = (of_char c :: nat) in if 48 \<le> k \<and> k \<le> 57 then Some (k - 48) else None)"

fun nat_of_digits :: "string \<Rightarrow> nat \<Rightarrow> nat option" where
  "nat_of_digits [] acc = Some acc"
| "nat_of_digits (c # cs) acc =
     (case digit_of c of None \<Rightarrow> None | Some d \<Rightarrow> nat_of_digits cs (10 * acc + d))"

definition parse_nat :: "string \<Rightarrow> nat option" where
  "parse_nat s = (if s = [] then None else nat_of_digits s 0)"

definition parse_int :: "string \<Rightarrow> int option" where
  "parse_int s =
     (case s of
        [] \<Rightarrow> None
      | c # r \<Rightarrow> if c = CHR ''-'' then map_option (\<lambda>n. - int n) (parse_nat r)
                 else map_option int (parse_nat s))"

definition parse_decimal :: "string \<Rightarrow> rat option" where
  "parse_decimal s =
     (let neg = (s \<noteq> [] \<and> hd s = CHR ''-'');
          body = (if neg then tl s else s);
          ip = takeWhile (\<lambda>c. c \<noteq> CHR ''.'') body;
          fp = drop (Suc (length ip)) body
      in case (parse_nat ip, if fp = [] then Some 0 else parse_nat fp) of
           (Some i, Some f) \<Rightarrow>
             Some ((if neg then - 1 else 1) * (of_nat i + of_nat f / 10 ^ length fp))
         | _ \<Rightarrow> None)"

definition digit_char :: "nat \<Rightarrow> char" where
  "digit_char d = ''0123456789'' ! d"

fun str_nat :: "nat \<Rightarrow> string" where
  "str_nat n =
     (if n < 10 then [digit_char n]
      else str_nat (n div 10) @ [digit_char (n mod 10)])"

definition str_int :: "int \<Rightarrow> string" where
  "str_int i = (if i < 0 then CHR ''-'' # str_nat (nat (- i)) else str_nat (nat i))"

fun frac_digits :: "nat \<Rightarrow> rat \<Rightarrow> string" where
  "frac_digits 0 r = []"
| "frac_digits (Suc k) r =
     (let d = \<lfloor>r * 10\<rfloor>; r' = r * 10 - of_int d
      in digit_char (nat d) # (if r' = 0 then [] else frac_digits k r'))"

definition str_decimal :: "rat \<Rightarrow> string" where
  "str_decimal q =
     (let a = \<bar>q\<bar>; i = \<lfloor>a\<rfloor>
      in (if q < 0 then [CHR ''-''] else []) @ str_nat (nat i) @ [CHR ''.'']
           @ frac_digits 17 (a - of_int i))"

definition int_parser :: parser where
  "int_parser =
     \<lparr>parse_to = (\<lambda>s. map_option PInt (parse_int s)),
      parse_from = (\<lambda>v. case v of PInt i \<Rightarrow> str_int i
                               | PBool b \<Rightarrow> (if b then ''True'' else ''False'')
                               | _ \<Rightarrow> [])\<rparr>"

definition float_parser :: parser where
  "float_parser =
     \<lparr>parse_to = (\<lambda>s. map_option PFloat (parse_decimal s)),
      parse_from = (\<lambda>v. case v of PFloat q \<Rightarrow> str_decimal q
                               | PInt i \<Rightarrow> str_int i
                               | _ \<Rightarrow> [])\<rparr>"


section \<open>Double-axis tracker (templates/mouse_tracker_utils/axis_trackers.py)\<close>

text \<open>
  \<open>DoubleAxisTracker\<close> owns a repeating \<open>QTimer\<close>, a \<open>MouseComparator\<close> created at
  each key press, and two slider handlers. The calls it makes on the timer and on the
  handlers are recorded in order. The instructions run by \<open>super()\<close> on press and
  release do not touch these attributes and are left out.
\<close>

datatype tracker_call =
    TimerStart nat
  | TimerStop
  | HorizontalStart
  | HorizontalStop
  | VerticalStart
  | VerticalStop

record mouse_comparator =
  start_x :: int
  start_y :: int

record tracker =
  timer_active :: bool
  comparator :: "mouse_comparator option"
  horizontal_working :: bool
  vertical_working :: bool
  calls :: "tracker_call list"

text \<open>
  The comparator reads the cursor of the host at every access; \<open>cur\<close> is the position
  of the cursor during the callback that asks.
\<close>

definition delta_x :: "mouse_comparator \<Rightarrow> int \<times> int \<Rightarrow> int" where
  "delta_x c cur = \<bar>start_x c - fst cur\<bar>"

definition delta_y :: "mouse_comparator \<Rightarrow> int \<times> int \<Rightarrow> int" where
  "delta_y c cur = \<bar>start_y c - snd cur\<bar>"

definition is_horizontal :: "mouse_comparator \<Rightarrow> int \<times> int \<Rightarrow> bool" where
  "is_horizontal c cur = (delta_y c cur < delta_x c cur)"

text \<open>
  Modelled from the spec: \<open>SliderHandler\<close> is missing from the sources. \<open>start()\<close>
  takes a handler from idle to tracking, \<open>stop()\<close> from tracking to idle, and \<open>stop()\<close>
  is safe on a handler that is idle already.
\<close>

definition horizontal_start :: "tracker \<Rightarrow> tracker" where
  "horizontal_start t = t\<lparr>horizontal_working := True, calls := calls t @ [HorizontalStart]\<rparr>"

definition vertical_start :: "tracker \<Rightarrow> tracker" where
  "vertical_start t = t\<lparr>vertical_working := True, calls := calls t @ [VerticalStart]\<rparr>"

definition horizontal_stop :: "tracker \<Rightarrow> tracker" where
  "horizontal_stop t = t\<lparr>horizontal_working := False, calls := calls t @ [HorizontalStop]\<rparr>"

definition vertical_stop :: "tracker \<Rightarrow> tracker" where
  "vertical_stop t = t\<lparr>vertical_working := False, calls := calls t @ [VerticalStop]\<rparr>"

definition timer_start :: "nat \<Rightarrow> tracker \<Rightarrow> tracker" where
  "timer_start ms t = t\<lparr>timer_active := True, calls := calls t @ [TimerStart ms]\<rparr>"

definition timer_stop :: "tracker \<Rightarrow> tracker" where
  "timer_stop t = t\<lparr>timer_active := False, calls := calls t @ [TimerStop]\<rparr>"

definition tracker_init :: tracker where
  "tracker_init =
     \<lparr>timer_active = False, comparator = None, horizontal_working = False,
      vertical_working = False, calls = []\<rparr>"

definition on_key_press :: "int \<times> int \<Rightarrow> tracker \<Rightarrow> tracker" where
  "on_key_press cur t =
     timer_start 50 (t\<lparr>comparator := Some \<lparr>start_x = fst cur, start_y = snd cur\<rparr>\<rparr>)"

definition start_after_picking_slider :: "int \<times> int \<Rightarrow> tracker \<Rightarrow> py_error + tracker" where
  "start_after_picking_slider cur t =
     (case comparator t of
        None \<Rightarrow> Inl AttributeError
      | Some c \<Rightarrow>
          if delta_x c cur \<le> 10 \<and> delta_y c cur \<le> 10 then Inr t
          else Inr (timer_stop
                      (if is_horizontal c cur then horizontal_start t else vertical_start t)))"

definition on_every_key_release :: "tracker \<Rightarrow> tracker" where
  "on_every_key_release t = vertical_stop (horizontal_stop t)"

text \<open>
  What the host delivers: key presses and releases, and timeouts of the timer. A timeout
  reaches \<open>_start_after_picking_slider\<close> only while the timer is active.
\<close>

datatype tracker_event = KeyPress "int \<times> int" | Timeout "int \<times> int" | KeyRelease

fun tracker_step :: "tracker_event \<Rightarrow> tracker \<Rightarrow> py_error + tracker" where
  "tracker_step (KeyPress cur) t = Inr (on_key_press cur t)"
| "tracker_step (Timeout cur) t =
     (if timer_active t then start_after_picking_slider cur t else Inr t)"
| "tracker_step KeyRelease t = Inr (on_every_key_release t)"

fun tracker_run :: "tracker_event list \<Rightarrow> tracker \<Rightarrow> py_error + tracker" where
  "tracker_run [] t = Inr t"
| "tracker_run (e # es) t =
     (case tracker_step e t of Inl err \<Rightarrow> Inl err | Inr t' \<Rightarrow> tracker_run es t')"

fun is_start :: "tracker_call \<Rightarrow> bool" where
  "is_start HorizontalStart = True"
| "is_start VerticalStart = True"
| "is_start _ = False"

definition starts :: "tracker \<Rightarrow> tracker_call list" where
  "starts t = filter is_start (calls t)"

fun is_key_press :: "tracker_event \<Rightarrow> bool" where
  "is_key_press (KeyPress _) = True"
| "is_key_press _ = False"


section \<open>Pie manager and label animator (templates/pie_menu_utils/pie_manager.py)\<close>

text \<open>
  Modelled from the spec: \<open>AnimationProgress\<close> is missing from the sources. The
  activation progress of a label is a scalar in [0,1] with a per-tick step \<open>s\<close>: up
  toward 1, down toward 0, clamped to [0,1]; \<open>reset\<close> puts it to rest at 0. The
  scalar is a real number here.
\<close>

definition up :: "real \<Rightarrow> real \<Rightarrow> real" where
  "up s v = min (v + s) 1"

definition down :: "real \<Rightarrow> real \<Rightarrow> real" where
  "down s v = max (v - s) 0"

definition reset :: "real \<Rightarrow> real" where
  "reset v = 0"

text \<open>A label is compared by its value; each label carries its own progress.\<close>

record label =
  label_value :: nat
  activation_progress :: real

record pie_widget =
  label_holder :: "label list"
  active :: "nat option"
  is_visible :: bool
  deadzone :: real
  repaints :: nat

record pie_manager =
  widget :: pie_widget
  circle :: "int \<times> int"
  timer_running :: bool
  animator_running :: bool

text \<open>
  Modelled from the spec: \<open>CirclePoints\<close> is missing from the sources. It maps a point
  to its distance from the center.
\<close>

definition distance :: "int \<times> int \<Rightarrow> int \<times> int \<Rightarrow> real" where
  "distance c p = sqrt (real_of_int ((fst p - fst c)\<^sup>2 + (snd p - snd c)\<^sup>2))"

definition animator_start :: "pie_manager \<Rightarrow> pie_manager" where
  "animator_start m = m\<lparr>animator_running := True\<rparr>"

definition stop :: "bool \<Rightarrow> pie_manager \<Rightarrow> pie_manager" where
  "stop hide m =
     (let w = widget m;
          w1 = w\<lparr>label_holder :=
                   map (\<lambda>l. l\<lparr>activation_progress := reset (activation_progress l)\<rparr>)
                     (label_holder w)\<rparr>;
          w2 = (if hide then w1\<lparr>is_visible := False\<rparr> else w1)
      in m\<lparr>timer_running := False, widget := w2\<rparr>)"

definition set_active_label :: "nat option \<Rightarrow> pie_manager \<Rightarrow> pie_manager" where
  "set_active_label l m =
     (if active (widget m) \<noteq> l
      then animator_start (m\<lparr>widget := (widget m)\<lparr>active := l\<rparr>\<rparr>)
      else m)"

text \<open>
  \<open>_handle_cursor\<close>. The angle of a point and the label at an angle come from classes
  that are not among the sources; they are the parameters \<open>angle_from_point\<close> and
  \<open>on_angle\<close>.
\<close>

definition handle_cursor ::
  "(int \<times> int \<Rightarrow> int \<times> int \<Rightarrow> real) \<Rightarrow> (real \<Rightarrow> nat) \<Rightarrow> int \<times> int \<Rightarrow> pie_manager \<Rightarrow> pie_manager"
where
  "handle_cursor angle_from_point on_angle cursor m =
     (if \<not> is_visible (widget m) then stop True m
      else if distance (circle m) cursor < deadzone (widget m) then set_active_label None m
      else set_active_label (Some (on_angle (angle_from_point (circle m) cursor))) m)"

text \<open>\<open>LabelAnimator._update\<close>, with the step \<open>s\<close> of the progress values.\<close>

definition step_label :: "real \<Rightarrow> nat option \<Rightarrow> label \<Rightarrow> label" where
  "step_label s a l =
     (if a = Some (label_value l)
      then l\<lparr>activation_progress := up s (activation_progress l)\<rparr>
      else l\<lparr>activation_progress := down s (activation_progress l)\<rparr>)"

definition at_bound :: "label \<Rightarrow> bool" where
  "at_bound l = (activation_progress l = 0 \<or> activation_progress l = 1)"

definition update :: "real \<Rightarrow> pie_manager \<Rightarrow> pie_manager" where
  "update s m =
     (let w = widget m;
          w' = w\<lparr>label_holder := map (step_label s (active w)) (label_holder w),
                 repaints := Suc (repaints w)\<rparr>;
          m' = m\<lparr>widget := w'\<rparr>
      in if list_all at_bound (label_holder w') then m'\<lparr>animator_running := False\<rparr> else m')"

text \<open>The scheduler of the animator calls \<open>_update\<close> at each tick while it runs.\<close>

definition animator_tick :: "real \<Rightarrow> pie_manager \<Rightarrow> pie_manager" where
  "animator_tick s m = (if animator_running m then update s m else m)"

fun animator_ticks :: "nat \<Rightarrow> real \<Rightarrow> pie_manager \<Rightarrow> pie_manager" where
  "animator_ticks 0 s m = m"
| "animator_ticks (Suc n) s m = animator_ticks n s (animator_tick s m)"

definition progress_values :: "pie_manager \<Rightarrow> real list" where
  "progress_values m = map activation_progress (label_holder (widget m))"

definition target :: "nat option \<Rightarrow> label \<Rightarrow> real" where
  "target a l = (if a = Some (label_value l) then 1 else 0)"


text \<open>
  Notions for the animation: a progress value inside [0,1], a label that rests at the bound
  its activity asks for, and the progress of a label after \<open>n\<close> steps in one direction.
\<close>

definition progress_after :: "nat \<Rightarrow> real \<Rightarrow> nat option \<Rightarrow> label \<Rightarrow> label" where
  "progress_after n s a l =
     l\<lparr>activation_progress :=
         (if a = Some (label_value l) then min (activation_progress l + real n * s) 1
          else max (activation_progress l - real n * s) 0)\<rparr>"

definition in_range :: "label \<Rightarrow> bool" where
  "in_range l = (0 \<le> activation_progress l \<and> activation_progress l \<le> 1)"

definition at_target :: "nat option \<Rightarrow> label \<Rightarrow> bool" where
  "at_target a l = (activation_progress l = target a l)"

definition labels :: "pie_manager \<Rightarrow> label list" where
  "labels m = label_holder (widget m)"


section \<open>Controllers (core_components/controllers)\<close>

text \<open>
  \<open>PresetController.get_label\<close>: the catalog of the host is a dictionary from preset
  names to resources; a missing key raises \<open>KeyError\<close>, which the method catches.
\<close>

datatype qimage = QImage nat

datatype qpixmap = fromImage qimage

datatype resource = Resource (image: qimage)

definition getitem :: "('k \<rightharpoonup> 'v) \<Rightarrow> 'k \<Rightarrow> py_error + 'v" where
  "getitem d k = (case d k of None \<Rightarrow> Inl KeyError | Some v \<Rightarrow> Inr v)"

definition get_label :: "(string \<rightharpoonup> resource) \<Rightarrow> string \<Rightarrow> py_error + qpixmap option" where
  "get_label presets v =
     (case getitem presets v of
        Inl e \<Rightarrow> (if e = KeyError then Inr None else Inl e)
      | Inr r \<Rightarrow> Inr (Some (fromImage (image r))))"

text \<open>
  \<open>UndoController\<close>: the remembered position and the actions triggered in the host.
  The value is a float; \<open>round\<close> raises on one that is not finite.
\<close>

datatype pyfloat = Finite rat | PosInf | NegInf | NaN

definition round_float :: "pyfloat \<Rightarrow> py_error + int" where
  "round_float x =
     (case x of
        Finite q \<Rightarrow> Inr (py_round q)
      | NaN \<Rightarrow> Inl ValueError
      | _ \<Rightarrow> Inl OverflowError)"

record undo_controller =
  state :: int
  triggered :: "string list"

definition trigger_action :: "string \<Rightarrow> undo_controller \<Rightarrow> undo_controller" where
  "trigger_action a u = u\<lparr>triggered := triggered u @ [a]\<rparr>"

definition get_value :: "undo_controller \<Rightarrow> int" where
  "get_value u = state u"

definition set_value :: "pyfloat \<Rightarrow> undo_controller \<Rightarrow> py_error option \<times> undo_controller" where
  "set_value x u =
     (case round_float x of
        Inl e \<Rightarrow> (Some e, u)
      | Inr v \<Rightarrow>
          if v = state u then (None, u)
          else if state u < v
          then (None, (trigger_action ''edit_redo'' u)\<lparr>state := state u + 1\<rparr>)
          else (None, (trigger_action ''edit_undo'' u)\<lparr>state := state u - 1\<rparr>))"


section \<open>Concrete inputs\<close>

definition FPS_LIMIT :: field where
  "FPS_LIMIT = ImmutableField int_parser ''FPS limit'' (PInt 60)"

definition fps_30 :: world where
  "fps_30 = \<lparr>store = [(''ShortcutComposer'', ''FPS limit'') \<mapsto> ''30''], trace = []\<rparr>"

definition empty_world :: world where
  "empty_world = \<lparr>store = Map.empty, trace = []\<rparr>"


definition two_label_pie :: pie_manager where
  "two_label_pie =
     \<lparr>widget = \<lparr>label_holder = [\<lparr>label_value = 0, activation_progress = 0\<rparr>,
                                 \<lparr>label_value = 1, activation_progress = 1\<rparr>],
                 active = Some 0, is_visible = True, deadzone = 10, repaints = 0\<rparr>,
      circle = (0, 0), timer_running = True, animator_running = True\<rparr>"

definition hidden_pie :: pie_manager where
  "hidden_pie =
     \<lparr>widget = \<lparr>label_holder = [\<lparr>label_value = 0, activation_progress = 0\<rparr>,
                                 \<lparr>label_value = 1, activation_progress = 1\<rparr>],
                 active = Some 1, is_visible = False, deadzone = 10, repaints = 0\<rparr>,
      circle = (0, 0), timer_running = True, animator_running = False\<rparr>"

definition north :: "int \<times> int \<Rightarrow> int \<times> int \<Rightarrow> real" where
  "north c p = 0"

definition first_label :: "real \<Rightarrow> nat" where
  "first_label a = 0"


section \<open>Properties of the configuration fields\<close>

lemmas field_eval =
  field_write_def is_write_redundant_def field_read_def read_setting_def write_setting_def
  run_callbacks_def mutations_def FPS_LIMIT_def ImmutableField_def register_callback_def
  isinstance_def issubclass_def int_parser_def parse_int_def parse_nat_def digit_of_def
  str_int_def digit_char_def fps_30_def empty_world_def

text \<open>
  C6: a \<open>write\<close> of a value that is not an instance of the type of the field's default
  raises \<open>TypeError\<close> at once: the world after the call is the world before it, with
  the store untouched and not even read.
\<close>

theorem write_rejects_type_mismatch:
  "\<not> isinstance v (type_of (default f)) \<Longrightarrow> field_write f v w = (Some TypeError, w)"
  by (simp add: field_write_def)

theorem write_rejects_type_mismatch_witness:
  "\<not> isinstance (PStr ''fast'') (type_of (default FPS_LIMIT))
   \<and> field_write FPS_LIMIT (PStr ''fast'') fps_30 = (Some TypeError, fps_30)"
proof -
  have h: "\<not> isinstance (PStr ''fast'') (type_of (default FPS_LIMIT))"
    by (simp add: isinstance_def issubclass_def FPS_LIMIT_def ImmutableField_def)
  show ?thesis using h write_rejects_type_mismatch [OF h] by simp
qed

text \<open>
  C2: for a value of the field's type, \<open>write\<close> raises nothing. When the value read from
  the store equals the new value, or no raw value is stored and the new value equals the
  default, the call leaves the store as it is and its trace holds no store write and no
  callback run. In every other case the store gets the serialized value, and the trace
  holds exactly one store write followed by the runs of all registered callbacks in the
  order of registration.
\<close>

theorem write_skips_redundant:
  assumes "isinstance v (type_of (default f))"
  shows "\<exists>w' es. field_write f v w = (None, w') \<and> trace w' = trace w @ es \<and>
     (if py_eq (read_impl f (store w)) v
         \<or> (store w (config_group f, name f) = None \<and> py_eq v (default f))
      then store w' = store w \<and> mutations es = []
      else store w' = (store w)((config_group f, name f) \<mapsto> to_string f v)
           \<and> mutations es = WriteSetting (config_group f) (name f) (to_string f v)
                               # map RunCallback (on_change_callbacks f))"
  using assms
  by (auto simp: field_write_def is_write_redundant_def field_read_def read_setting_def
      write_setting_def run_callbacks_def mutations_def filter_map comp_def)

theorem write_skips_redundant_witness:
  "isinstance (PInt 60) (type_of (default (register_callback 1 FPS_LIMIT)))
   \<and> field_write (register_callback 1 FPS_LIMIT) (PInt 60) fps_30
      = (None, \<lparr>store = [(''ShortcutComposer'', ''FPS limit'') \<mapsto> ''60''],
                trace = [FieldRead ''ShortcutComposer'' ''FPS limit'',
                         ReadSetting ''ShortcutComposer'' ''FPS limit'',
                         WriteSetting ''ShortcutComposer'' ''FPS limit'' ''60'',
                         RunCallback 1]\<rparr>)
   \<and> field_write (register_callback 1 FPS_LIMIT) (PInt 30) fps_30
      = (None, \<lparr>store = [(''ShortcutComposer'', ''FPS limit'') \<mapsto> ''30''],
                trace = [FieldRead ''ShortcutComposer'' ''FPS limit'']\<rparr>)
   \<and> field_write (register_callback 1 FPS_LIMIT) (PInt 60) empty_world
      = (None, \<lparr>store = Map.empty,
                trace = [FieldRead ''ShortcutComposer'' ''FPS limit'']\<rparr>)"
  using write_skips_redundant [of "PInt 60" "register_callback 1 FPS_LIMIT" fps_30]
  by (simp add: field_eval)

lemma py_eq_refl: "py_eq v v"
proof (induction v)
  case (PList xs)
  then show ?case by (simp add: list_all2_same)
qed simp_all

lemma isinstance_default: "isinstance (default f) (type_of (default f))"
  by (simp add: isinstance_def issubclass_def)

lemma reset_default_stale:
  assumes "stale f (store w)"
  shows "reset_default f w =
    (None, w\<lparr>store := (store w)(key f \<mapsto> to_string f (default f)),
             trace := trace w @ [FieldRead (config_group f) (name f),
                                 ReadSetting (config_group f) (name f), write_of_default f]
                        @ map RunCallback (on_change_callbacks f)\<rparr>)"
  using assms
  by (auto simp: reset_default_def field_write_def isinstance_default is_write_redundant_def
      field_read_def read_setting_def write_setting_def run_callbacks_def stale_def key_def
      write_of_default_def)

lemma reset_default_fresh:
  assumes "\<not> stale f (store w)"
  shows "\<exists>es. reset_default f w = (None, w\<lparr>trace := trace w @ es\<rparr>) \<and> store_writes es = []"
proof (cases "py_eq (read_impl f (store w)) (default f)")
  case True
  then have "reset_default f w = (None, w\<lparr>trace := trace w @ [FieldRead (config_group f) (name f)]\<rparr>)"
    by (simp add: reset_default_def field_write_def isinstance_default is_write_redundant_def
        field_read_def)
  then show ?thesis
    by (intro exI [where x = "[FieldRead (config_group f) (name f)]"])
      (simp add: store_writes_def)
next
  case False
  with assms have "store w (key f) = None" by (simp add: stale_def)
  with False have "reset_default f w =
      (None, w\<lparr>trace := trace w @ [FieldRead (config_group f) (name f),
                                   ReadSetting (config_group f) (name f)]\<rparr>)"
    by (simp add: reset_default_def field_write_def isinstance_default is_write_redundant_def
        field_read_def read_setting_def py_eq_refl key_def)
  then show ?thesis
    by (intro exI [where x = "[FieldRead (config_group f) (name f),
                               ReadSetting (config_group f) (name f)]"])
      (simp add: store_writes_def)
qed

lemma stale_update_other:
  assumes "reads_own_entry g" "key g \<noteq> k"
  shows "stale g (s(k \<mapsto> v)) = stale g s"
proof -
  have "(s(k \<mapsto> v)) (key g) = s (key g)" using assms by simp
  moreover from this assms(1) have "read_impl g (s(k \<mapsto> v)) = read_impl g s"
    unfolding reads_own_entry_def by blast
  ultimately show ?thesis by (simp add: stale_def)
qed

text \<open>
  C3, amended: \<open>reset_defaults\<close> calls \<open>reset_default\<close> on every field in turn and
  raises nothing. It writes the serialized default of exactly the stale fields, in the
  order of the fields; the entry of a field that is not stored, or that already reads as
  the default, is left as it is, and so is every other entry of the store. (The fields
  have distinct entries, and each reads only its own.)
\<close>

theorem reset_defaults_writes_stale:
  assumes "distinct (map key fs)" and "\<forall>f\<in>set fs. reads_own_entry f"
  shows "\<exists>w' es. reset_defaults fs w = (None, w') \<and> trace w' = trace w @ es
     \<and> store_writes es = map write_of_default (filter (\<lambda>f. stale f (store w)) fs)
     \<and> (\<forall>f\<in>set fs. store w' (key f) =
           (if stale f (store w) then Some (to_string f (default f)) else store w (key f)))
     \<and> (\<forall>k. k \<notin> key ` set fs \<longrightarrow> store w' k = store w k)"
  using assms
proof (induction fs arbitrary: w)
  case Nil
  then show ?case by (simp add: store_writes_def)
next
  case (Cons f fs)
  have f_new: "key f \<notin> key ` set fs" and dist: "distinct (map key fs)"
    and own: "\<forall>g\<in>set fs. reads_own_entry g"
    using Cons.prems by auto
  show ?case
  proof (cases "stale f (store w)")
    case True
    define w1 where "w1 = w\<lparr>store := (store w)(key f \<mapsto> to_string f (default f)),
             trace := trace w @ [FieldRead (config_group f) (name f),
                                 ReadSetting (config_group f) (name f), write_of_default f]
                        @ map RunCallback (on_change_callbacks f)\<rparr>"
    have step: "reset_default f w = (None, w1)"
      unfolding w1_def by (rule reset_default_stale [OF True])
    have same: "stale g (store w1) = stale g (store w)" if "g \<in> set fs" for g
    proof -
      from that f_new have "key g \<noteq> key f" by (metis imageI)
      with own that show ?thesis by (simp add: w1_def stale_update_other)
    qed
    from Cons.IH [OF dist own, of w1] obtain w' es where
      run: "reset_defaults fs w1 = (None, w')" and tr: "trace w' = trace w1 @ es"
      and wr: "store_writes es = map write_of_default (filter (\<lambda>f. stale f (store w1)) fs)"
      and st: "\<forall>g\<in>set fs. store w' (key g) =
           (if stale g (store w1) then Some (to_string g (default g)) else store w1 (key g))"
      and other: "\<forall>k. k \<notin> key ` set fs \<longrightarrow> store w' k = store w1 k"
      by blast
    have filt: "filter (\<lambda>f. stale f (store w1)) fs = filter (\<lambda>f. stale f (store w)) fs"
      by (rule filter_cong) (simp_all add: same)
    let ?es = "[FieldRead (config_group f) (name f),
                ReadSetting (config_group f) (name f), write_of_default f]
               @ map RunCallback (on_change_callbacks f) @ es"
    have 1: "reset_defaults (f # fs) w = (None, w')" using step run by simp
    have 2: "trace w' = trace w @ ?es" using tr by (simp add: w1_def)
    have 3: "store_writes ?es = map write_of_default (filter (\<lambda>f. stale f (store w)) (f # fs))"
      using wr True by (simp add: store_writes_def filt write_of_default_def filter_map comp_def)
    have 4: "\<forall>g\<in>set (f # fs). store w' (key g) =
           (if stale g (store w) then Some (to_string g (default g)) else store w (key g))"
    proof
      fix g assume "g \<in> set (f # fs)"
      then consider "g = f" | "g \<in> set fs" by auto
      then show "store w' (key g) =
           (if stale g (store w) then Some (to_string g (default g)) else store w (key g))"
      proof cases
        case 1
        from other f_new have "store w' (key f) = store w1 (key f)" by blast
        with 1 True show ?thesis by (simp add: w1_def)
      next
        case 2
        with f_new have "key g \<noteq> key f" by (metis imageI)
        with st 2 same show ?thesis by (simp add: w1_def)
      qed
    qed
    have 5: "\<forall>k. k \<notin> key ` set (f # fs) \<longrightarrow> store w' k = store w k"
      using other by (simp add: w1_def)
    from 1 2 3 4 5 show ?thesis by blast
  next
    case False
    from reset_default_fresh [OF False] obtain es0 where
      step: "reset_default f w = (None, w\<lparr>trace := trace w @ es0\<rparr>)"
      and nowr: "store_writes es0 = []" by blast
    define w1 where "w1 = w\<lparr>trace := trace w @ es0\<rparr>"
    have s1: "store w1 = store w" by (simp add: w1_def)
    from Cons.IH [OF dist own, of w1] obtain w' es where
      run: "reset_defaults fs w1 = (None, w')" and tr: "trace w' = trace w1 @ es"
      and wr: "store_writes es = map write_of_default (filter (\<lambda>f. stale f (store w1)) fs)"
      and st: "\<forall>g\<in>set fs. store w' (key g) =
           (if stale g (store w1) then Some (to_string g (default g)) else store w1 (key g))"
      and other: "\<forall>k. k \<notin> key ` set fs \<longrightarrow> store w' k = store w1 k"
      by blast
    have 1: "reset_defaults (f # fs) w = (None, w')" using step run by (simp add: w1_def)
    have 2: "trace w' = trace w @ (es0 @ es)" using tr by (simp add: w1_def)
    have 3: "store_writes (es0 @ es) = map write_of_default (filter (\<lambda>f. stale f (store w)) (f # fs))"
      using wr nowr False by (simp add: store_writes_def s1)
    have 4: "\<forall>g\<in>set (f # fs). store w' (key g) =
           (if stale g (store w) then Some (to_string g (default g)) else store w (key g))"
    proof -
      from other f_new have "store w' (key f) = store w (key f)" unfolding s1 by blast
      with st False show ?thesis by (simp add: s1)
    qed
    have 5: "\<forall>k. k \<notin> key ` set (f # fs) \<longrightarrow> store w' k = store w k"
      using other by (simp add: s1)
    from 1 2 3 4 5 show ?thesis by blast
  qed
qed


lemma reads_own_entry_ImmutableField: "reads_own_entry (ImmutableField p n d)"
  by (simp add: reads_own_entry_def key_def ImmutableField_def)

lemmas sweep_eval =
  reset_default_def field_write_def is_write_redundant_def field_read_def read_setting_def
  write_setting_def run_callbacks_def Config_def ImmutableField_def isinstance_def
  issubclass_def int_parser_def float_parser_def parse_int_def parse_nat_def digit_of_def
  str_int_def digit_char_def fps_30_def empty_world_def store_writes_def

text \<open>
  C3, as the claim states it, fails: on a store with no entry the sweep over the fields
  of \<open>Config\<close> writes nothing at all, since every write of a default is redundant.
\<close>

theorem reset_defaults_empty_store_counterexample:
  "fst (reset_defaults (Config int_parser float_parser) empty_world) = None
   \<and> store (snd (reset_defaults (Config int_parser float_parser) empty_world)) = Map.empty
   \<and> store_writes (trace (snd (reset_defaults (Config int_parser float_parser) empty_world))) = []"
  by (simp add: sweep_eval)

theorem reset_defaults_writes_stale_witness:
  "distinct (map key (Config int_parser float_parser))
   \<and> list_all reads_own_entry (Config int_parser float_parser)
   \<and> reset_defaults (Config int_parser float_parser) fps_30 =
       (None,
        \<lparr>store = [(''ShortcutComposer'', ''FPS limit'') \<mapsto> ''60''],
         trace = [FieldRead ''ShortcutComposer'' ''Short vs long press time'',
                  FieldRead ''ShortcutComposer'' ''Tracker sensitivity scale'',
                  FieldRead ''ShortcutComposer'' ''Tracker deadzone'',
                  FieldRead ''ShortcutComposer'' ''FPS limit'',
                  ReadSetting ''ShortcutComposer'' ''FPS limit'',
                  WriteSetting ''ShortcutComposer'' ''FPS limit'' ''60'',
                  FieldRead ''ShortcutComposer'' ''Pie global scale'',
                  FieldRead ''ShortcutComposer'' ''Pie icon global scale'',
                  FieldRead ''ShortcutComposer'' ''Pie deadzone global scale'',
                  FieldRead ''ShortcutComposer'' ''Pie animation time'']\<rparr>)"
proof -
  have d: "distinct (map key (Config int_parser float_parser))"
    by (simp add: Config_def key_def ImmutableField_def)
  have o: "\<forall>f\<in>set (Config int_parser float_parser). reads_own_entry f"
    by (simp add: Config_def reads_own_entry_ImmutableField)
  have e: "reset_defaults (Config int_parser float_parser) fps_30 =
       (None,
        \<lparr>store = [(''ShortcutComposer'', ''FPS limit'') \<mapsto> ''60''],
         trace = [FieldRead ''ShortcutComposer'' ''Short vs long press time'',
                  FieldRead ''ShortcutComposer'' ''Tracker sensitivity scale'',
                  FieldRead ''ShortcutComposer'' ''Tracker deadzone'',
                  FieldRead ''ShortcutComposer'' ''FPS limit'',
                  ReadSetting ''ShortcutComposer'' ''FPS limit'',
                  WriteSetting ''ShortcutComposer'' ''FPS limit'' ''60'',
                  FieldRead ''ShortcutComposer'' ''Pie global scale'',
                  FieldRead ''ShortcutComposer'' ''Pie icon global scale'',
                  FieldRead ''ShortcutComposer'' ''Pie deadzone global scale'',
                  FieldRead ''ShortcutComposer'' ''Pie animation time'']\<rparr>)"
    by (simp add: sweep_eval)
  from reset_defaults_writes_stale [OF d o, of fps_30] d o e
  show ?thesis by (simp add: list_all_iff)
qed


section \<open>Properties of the sleep time\<close>

lemma py_round_ge_1: "1 \<le> py_round q \<longleftrightarrow> 1 / 2 < q"
proof -
  define f where "f = \<lfloor>q\<rfloor>"
  have fl: "of_int f \<le> q" "q < of_int f + 1" unfolding f_def by linarith+
  have pr: "py_round q =
      (if q - of_int f < 1 / 2 then f
       else if 1 / 2 < q - of_int f then f + 1
       else if even f then f else f + 1)"
    by (simp add: py_round_def f_def Let_def)
  show ?thesis
  proof (cases "1 / 2 < q")
    case True
    with fl have "0 \<le> f" by linarith
    then consider "f = 0" | "1 \<le> f" by linarith
    then have "1 \<le> py_round q"
    proof cases
      case 1
      with True pr show ?thesis by simp
    next
      case 2
      with pr show ?thesis by (simp split: if_splits)
    qed
    with True show ?thesis by simp
  next
    case False
    with fl have "f \<le> 0" by linarith
    then consider "f = 0" | "f \<le> - 1" by linarith
    then have "py_round q \<le> 0"
    proof cases
      case 1
      with False pr show ?thesis by simp
    next
      case 2
      with pr show ?thesis by (simp split: if_splits)
    qed
    with False show ?thesis by simp
  qed
qed

text \<open>
  C7, as the claim states it, fails: at an FPS limit of 2000 the quotient is 0.5, which
  \<open>round\<close> takes to the even neighbour 0, so the interval is below 1 millisecond.
\<close>

theorem get_sleep_time_below_one_counterexample: "get_sleep_time 2000 < 1"
  by code_simp

text \<open>
  C7, amended: \<open>get_sleep_time\<close> returns \<open>round(1000/fps)\<close> for an FPS limit other than
  0 (ties to the even neighbour) and 1 for the limit 0; the interval is at least 1
  millisecond exactly for the limits from 0 to 1999.
\<close>

theorem get_sleep_time_rounds:
  "(fps \<noteq> 0 \<longrightarrow> get_sleep_time fps = py_round (1000 / of_int fps))
   \<and> get_sleep_time 0 = 1
   \<and> (1 \<le> get_sleep_time fps \<longleftrightarrow> 0 \<le> fps \<and> fps < 2000)"
proof -
  have "1 / 2 < (1000 :: rat) / of_int fps \<longleftrightarrow> 0 < fps \<and> fps < 2000" if "fps \<noteq> 0"
  proof (cases "0 < fps")
    case True
    then have "1 / 2 < (1000 :: rat) / of_int fps \<longleftrightarrow> (of_int fps :: rat) < 2000"
      by (simp add: field_simps)
    also have "\<dots> \<longleftrightarrow> fps < 2000" by linarith
    finally show ?thesis using True by simp
  next
    case False
    with that have "fps < 0" by simp
    then have "(1000 :: rat) / of_int fps < 0" by (simp add: divide_neg_pos)
    then show ?thesis using False by simp
  qed
  then show ?thesis by (auto simp: get_sleep_time_def py_round_ge_1)
qed

theorem get_sleep_time_rounds_witness:
  "get_sleep_time 60 = 17 \<and> get_sleep_time 16 = 62 \<and> get_sleep_time 0 = 1
   \<and> 1 \<le> get_sleep_time 1999"
proof -
  have e: "get_sleep_time 60 = 17" "get_sleep_time 16 = 62"
    by code_simp+
  show ?thesis
    using get_sleep_time_rounds [of 60] get_sleep_time_rounds [of 1999] by (simp add: e)
qed


section \<open>Properties of the double-axis tracker\<close>

lemmas tracker_eval =
  on_key_press_def start_after_picking_slider_def on_every_key_release_def timer_start_def
  timer_stop_def horizontal_start_def vertical_start_def horizontal_stop_def
  vertical_stop_def delta_x_def delta_y_def is_horizontal_def tracker_init_def starts_def

lemma tracker_run_append:
  "tracker_run (es1 @ es2) t =
     (case tracker_run es1 t of Inl err \<Rightarrow> Inl err | Inr t' \<Rightarrow> tracker_run es2 t')"
  by (induction es1 arbitrary: t) (auto split: sum.splits)

lemma run_below_threshold:
  assumes "comparator t = Some c"
    and "\<forall>p\<in>set ps. delta_x c p \<le> 10 \<and> delta_y c p \<le> 10"
  shows "tracker_run (map Timeout ps) t = Inr t"
  using assms
  by (induction ps) (auto simp: start_after_picking_slider_def)

lemma run_timer_stopped:
  assumes "\<not> timer_active t" and "\<not> list_ex is_key_press es"
  shows "\<exists>t'. tracker_run es t = Inr t' \<and> \<not> timer_active t' \<and> starts t' = starts t"
  using assms
proof (induction es arbitrary: t)
  case Nil
  then show ?case by simp
next
  case (Cons e es)
  show ?case
  proof (cases e)
    case (KeyPress p)
    with Cons.prems show ?thesis by simp
  next
    case (Timeout p)
    with Cons show ?thesis by simp
  next
    case KeyRelease
    have "\<not> timer_active (on_every_key_release t)"
      "starts (on_every_key_release t) = starts t"
      using Cons.prems(1) by (simp_all add: tracker_eval)
    with Cons.IH [of "on_every_key_release t"] Cons.prems(2) KeyRelease
    show ?thesis by auto
  qed
qed

text \<open>
  What the release does: both handlers are stopped, whichever was working, and the timer
  is left as it was.
\<close>

lemma release_stops_handlers_only:
  "timer_active (on_every_key_release t) = timer_active t
   \<and> \<not> horizontal_working (on_every_key_release t)
   \<and> \<not> vertical_working (on_every_key_release t)
   \<and> calls (on_every_key_release t) = calls t @ [HorizontalStop, VerticalStop]"
  by (simp add: tracker_eval)

text \<open>
  A key released before any timeout saw a delta above 10 pixels: up to and including the
  release no handler is started and both are stopped, but the decision timer still runs.
\<close>

lemma release_before_threshold:
  assumes "c = \<lparr>start_x = fst p0, start_y = snd p0\<rparr>"
    and "\<forall>p\<in>set before. delta_x c p \<le> 10 \<and> delta_y c p \<le> 10"
  shows "\<exists>t'. tracker_run (KeyPress p0 # map Timeout before @ [KeyRelease]) t = Inr t'
      \<and> calls t' = calls t @ [TimerStart 50, HorizontalStop, VerticalStop]
      \<and> \<not> horizontal_working t' \<and> \<not> vertical_working t'
      \<and> timer_active t' \<and> comparator t' = Some c"
proof -
  define t0 where "t0 = on_key_press p0 t"
  have t0: "comparator t0 = Some c" "timer_active t0" "calls t0 = calls t @ [TimerStart 50]"
    by (simp_all add: t0_def assms(1) on_key_press_def timer_start_def)
  have "tracker_run (map Timeout before) t0 = Inr t0"
    by (rule run_below_threshold [OF t0(1) assms(2)])
  then have "tracker_run (KeyPress p0 # map Timeout before @ [KeyRelease]) t
      = Inr (on_every_key_release t0)"
    by (simp add: tracker_run_append t0_def [symmetric])
  with t0 show ?thesis
    by (simp add: on_every_key_release_def horizontal_stop_def vertical_stop_def)
qed

text \<open>
  C1: a key released before either delta has exceeded 10 pixels should leave both handlers
  unstarted for that press. The code starts one all the same: the release does not stop the
  decision timer, so the next timeout that finds the cursor more than 10 pixels from the
  start of the press starts a handler after the release. Here the key is pressed at
  (100, 100), a timeout sees (103, 101), the key is released, and the next timeout sees
  (115, 103): the horizontal handler is started and is left working.
\<close>

theorem release_leaves_decision_timer_running:
  "tracker_run [KeyPress (100, 100), Timeout (103, 101), KeyRelease, Timeout (115, 103)]
       tracker_init
     = Inr \<lparr>timer_active = False, comparator = Some \<lparr>start_x = 100, start_y = 100\<rparr>,
            horizontal_working = True, vertical_working = False,
            calls = [TimerStart 50, HorizontalStop, VerticalStop, HorizontalStart, TimerStop]\<rparr>"
  by (simp add: tracker_eval)

text \<open>
  C5: after a key press, the timeouts that see both deltas at most 10 pixels change
  nothing. The first timeout with \<open>max(delta_x, delta_y) > 10\<close> starts exactly one
  handler, the horizontal one if \<open>delta_x > delta_y\<close> and the vertical one otherwise,
  and stops the decision timer. Whatever timeouts and releases follow before the next key
  press, the timer stays stopped and no other handler is started.
\<close>

theorem decision_commits_once:
  assumes "c = \<lparr>start_x = fst p0, start_y = snd p0\<rparr>"
    and "\<forall>p\<in>set before. delta_x c p \<le> 10 \<and> delta_y c p \<le> 10"
    and "10 < max (delta_x c q) (delta_y c q)"
    and "\<not> list_ex is_key_press rest"
  shows "\<exists>t1 t2.
      tracker_run (KeyPress p0 # map Timeout before @ [Timeout q]) t = Inr t1
      \<and> calls t1 = calls t @ [TimerStart 50,
            if delta_y c q < delta_x c q then HorizontalStart else VerticalStart, TimerStop]
      \<and> \<not> timer_active t1
      \<and> tracker_run (KeyPress p0 # map Timeout before @ Timeout q # rest) t = Inr t2
      \<and> starts t2 = starts t @
            [if delta_y c q < delta_x c q then HorizontalStart else VerticalStart]
      \<and> \<not> timer_active t2"
proof -
  define t0 where "t0 = on_key_press p0 t"
  have t0: "comparator t0 = Some c" "timer_active t0" "calls t0 = calls t @ [TimerStart 50]"
    by (simp_all add: t0_def assms(1) on_key_press_def timer_start_def)
  have wait: "tracker_run (map Timeout before) t0 = Inr t0"
    by (rule run_below_threshold [OF t0(1) assms(2)])
  define t1 where "t1 = timer_stop
      (if is_horizontal c q then horizontal_start t0 else vertical_start t0)"
  have pick: "tracker_step (Timeout q) t0 = Inr t1"
    using t0 assms(3) by (auto simp: start_after_picking_slider_def t1_def)
  have r1: "tracker_run (KeyPress p0 # map Timeout before @ [Timeout q]) t = Inr t1"
    using wait pick by (simp add: tracker_run_append t0_def [symmetric])
  have c1: "calls t1 = calls t @ [TimerStart 50,
            if delta_y c q < delta_x c q then HorizontalStart else VerticalStart, TimerStop]"
    by (simp add: t1_def t0(3) timer_stop_def horizontal_start_def vertical_start_def
        is_horizontal_def)
  have a1: "\<not> timer_active t1" by (simp add: t1_def timer_stop_def)
  have s1: "starts t1 = starts t @
            [if delta_y c q < delta_x c q then HorizontalStart else VerticalStart]"
    by (simp add: starts_def c1)
  from run_timer_stopped [OF a1 assms(4)] obtain t2 where
    r: "tracker_run rest t1 = Inr t2" and a2: "\<not> timer_active t2" and s2: "starts t2 = starts t1"
    by blast
  have "KeyPress p0 # map Timeout before @ Timeout q # rest
      = (KeyPress p0 # map Timeout before @ [Timeout q]) @ rest" by simp
  then have r2: "tracker_run (KeyPress p0 # map Timeout before @ Timeout q # rest) t = Inr t2"
    using r1 r by (simp only: tracker_run_append sum.case)
  from r1 c1 a1 r2 s1 s2 a2 show ?thesis by auto
qed

theorem decision_commits_once_witness:
  "tracker_run [KeyPress (100, 100), Timeout (103, 101), Timeout (115, 103),
                Timeout (140, 180), KeyRelease] tracker_init
     = Inr \<lparr>timer_active = False, comparator = Some \<lparr>start_x = 100, start_y = 100\<rparr>,
            horizontal_working = False, vertical_working = False,
            calls = [TimerStart 50, HorizontalStart, TimerStop, HorizontalStop, VerticalStop]\<rparr>"
  using decision_commits_once [where ?p0.0 = "(100, 100)" and before = "[(103, 101)]"
      and q = "(115, 103)" and rest = "[Timeout (140, 180), KeyRelease]"
      and c = "\<lparr>start_x = 100, start_y = 100\<rparr>" and t = tracker_init]
  by (simp add: tracker_eval)


section \<open>Properties of the pie manager and the label animator\<close>

lemma labels_update: "labels (update s m) = map (step_label s (active (widget m))) (labels m)"
  by (simp add: update_def labels_def Let_def)

lemma active_update: "active (widget (update s m)) = active (widget m)"
  by (simp add: update_def Let_def)

lemma running_update:
  "animator_running (update s m) \<longleftrightarrow> animator_running m \<and> \<not> list_all at_bound (labels (update s m))"
  by (simp add: update_def labels_def Let_def)

lemma ticks_stopped: "\<not> animator_running m \<Longrightarrow> animator_ticks n s m = m"
  by (induction n) (simp_all add: animator_tick_def)

lemma ticks_Suc: "animator_ticks (Suc n) s m = animator_tick s (animator_ticks n s m)"
  by (induction n arbitrary: m) simp_all

lemma step_progress_after:
  assumes "0 \<le> s"
  shows "step_label s a (progress_after n s a l) = progress_after (Suc n) s a l"
  using assms
  by (auto simp: step_label_def progress_after_def up_def down_def min_def max_def algebra_simps)

lemma progress_after_0: "in_range l \<Longrightarrow> progress_after 0 s a l = l"
  by (simp add: progress_after_def in_range_def)

lemma stepped_bound_is_target:
  assumes "0 < s" "in_range l" "at_bound (progress_after (Suc n) s a l)"
  shows "at_target a (progress_after (Suc n) s a l)"
proof (cases "a = Some (label_value l)")
  case True
  have "0 < real n * s + s" using assms(1) by (simp add: add_nonneg_pos)
  then have "0 < activation_progress l + real (Suc n) * s"
    using assms(2) by (simp add: in_range_def algebra_simps)
  then have "0 < min (activation_progress l + real (Suc n) * s) 1" by simp
  with True assms(3) show ?thesis
    by (auto simp: at_bound_def at_target_def target_def progress_after_def)
next
  case False
  have "0 < real n * s + s" using assms(1) by (simp add: add_nonneg_pos)
  then have "activation_progress l - real (Suc n) * s < 1"
    using assms(2) by (simp add: in_range_def algebra_simps)
  then have "max (activation_progress l - real (Suc n) * s) 0 < 1" by simp
  with False assms(3) show ?thesis
    by (auto simp: at_bound_def at_target_def target_def progress_after_def)
qed

lemma target_stays:
  assumes "0 \<le> s" "at_target a (progress_after n s a l)"
  shows "progress_after (Suc n) s a l = progress_after n s a l"
proof -
  have "0 \<le> real n * s" using assms(1) by simp
  with assms show ?thesis
    by (auto simp: at_target_def target_def progress_after_def min_def max_def algebra_simps
        split: if_splits)
qed

lemma ticks_invariant:
  assumes s: "0 < s" and range: "\<forall>l\<in>set (labels m). in_range l" and run: "animator_running m"
  shows "labels (animator_ticks n s m) = map (progress_after n s (active (widget m))) (labels m)
       \<and> active (widget (animator_ticks n s m)) = active (widget m)
       \<and> (animator_running (animator_ticks n s m)
            \<or> (\<forall>l\<in>set (labels (animator_ticks n s m)). at_target (active (widget m)) l))"
proof (induction n)
  case 0
  have "map (progress_after 0 s (active (widget m))) (labels m) = labels m"
    using range by (simp add: progress_after_0 map_idI)
  with run show ?case by simp
next
  case (Suc n)
  let ?a = "active (widget m)"
  let ?mn = "animator_ticks n s m"
  from Suc.IH have lab: "labels ?mn = map (progress_after n s ?a) (labels m)"
    and act: "active (widget ?mn) = ?a"
    and alt: "animator_running ?mn \<or> (\<forall>l\<in>set (labels ?mn). at_target ?a l)"
    by blast+
  show ?case
  proof (cases "animator_running ?mn")
    case True
    then have next_is: "animator_ticks (Suc n) s m = update s ?mn"
      by (simp add: ticks_Suc animator_tick_def del: animator_ticks.simps)
    have lab': "labels (update s ?mn) = map (progress_after (Suc n) s ?a) (labels m)"
      using s by (simp add: labels_update act lab step_progress_after)
    have "\<forall>l\<in>set (labels (update s ?mn)). at_target ?a l"
      if "\<not> animator_running (update s ?mn)"
    proof -
      from that True have "list_all at_bound (labels (update s ?mn))"
        by (simp add: running_update)
      then have "\<forall>l\<in>set (labels m). at_bound (progress_after (Suc n) s ?a l)"
        by (simp add: lab' list_all_iff)
      with s range have "\<forall>l\<in>set (labels m). at_target ?a (progress_after (Suc n) s ?a l)"
        by (blast intro: stepped_bound_is_target)
      then show ?thesis by (simp add: lab')
    qed
    then show ?thesis unfolding next_is using lab' by (auto simp: active_update act)
  next
    case False
    then have same: "animator_ticks (Suc n) s m = ?mn"
      by (simp add: ticks_Suc animator_tick_def del: animator_ticks.simps)
    from False alt have tgt: "\<forall>l\<in>set (labels ?mn). at_target ?a l" by simp
    then have "\<forall>l\<in>set (labels m). at_target ?a (progress_after n s ?a l)"
      by (simp add: lab)
    then have "map (progress_after (Suc n) s ?a) (labels m)
             = map (progress_after n s ?a) (labels m)"
      using s by (intro map_cong) (simp_all add: target_stays)
    with lab act tgt show ?thesis unfolding same by simp
  qed
qed

lemma progress_after_enough:
  assumes "0 < s" "in_range l" "1 \<le> real n * s"
  shows "at_target a (progress_after n s a l)"
  using assms
  by (auto simp: at_target_def target_def progress_after_def in_range_def min_def max_def)

lemma enough_ticks: "0 < s \<Longrightarrow> nat \<lceil>1 / s\<rceil> \<le> n \<Longrightarrow> 1 \<le> real n * s"
proof -
  assume s: "0 < s" and n: "nat \<lceil>1 / s\<rceil> \<le> n"
  have "1 / s \<le> real_of_int \<lceil>1 / s\<rceil>" by linarith
  also have "\<dots> \<le> real (nat \<lceil>1 / s\<rceil>)" by simp
  also have "\<dots> \<le> real n" using n by simp
  finally have "1 / s \<le> real n" .
  with s show ?thesis by (simp add: field_simps)
qed

lemma at_target_at_bound: "at_target a l \<Longrightarrow> at_bound l"
  by (simp add: at_target_def at_bound_def target_def split: if_splits)

lemma in_range_step: "0 \<le> s \<Longrightarrow> in_range l \<Longrightarrow> in_range (step_label s a l)"
  by (auto simp: in_range_def step_label_def up_def down_def)

lemma between_iff:
  "in_range l \<Longrightarrow> \<not> at_bound l \<longleftrightarrow> 0 < activation_progress l \<and> activation_progress l < 1"
  by (auto simp: in_range_def at_bound_def)

lemma step_at_target: "0 \<le> s \<Longrightarrow> at_target a l \<Longrightarrow> step_label s a l = l"
  by (auto simp: at_target_def target_def step_label_def up_def down_def)

text \<open>
  C4: a tick of the running animator leaves its scheduler running exactly when, after the
  step, some label's progress is not at a bound, which is when some progress lies strictly
  between 0 and 1; it stops the scheduler exactly when every progress is 0 or 1. With the
  active label unchanged and a positive step \<open>s\<close>, after \<open>\<lceil>1/s\<rceil>\<close> ticks the
  scheduler has stopped for good, the progress of every label is at its target (1 for the
  active label, 0 for the others) and a further step would change no progress value.
\<close>

theorem animator_stops_at_bounds:
  assumes s: "0 < s"
    and range: "\<forall>l\<in>set (label_holder (widget m)).
                  0 \<le> activation_progress l \<and> activation_progress l \<le> 1"
    and run: "animator_running m"
  shows "(animator_running (update s m)
            \<longleftrightarrow> \<not> list_all at_bound (label_holder (widget (update s m))))
       \<and> (animator_running (update s m)
            \<longleftrightarrow> (\<exists>l\<in>set (label_holder (widget (update s m))).
                   0 < activation_progress l \<and> activation_progress l < 1))
       \<and> (\<forall>n\<ge>nat \<lceil>1 / s\<rceil>.
             \<not> animator_running (animator_ticks n s m)
             \<and> (\<forall>l\<in>set (label_holder (widget (animator_ticks n s m))).
                   activation_progress l = target (active (widget m)) l)
             \<and> progress_values (update s (animator_ticks n s m))
                 = progress_values (animator_ticks n s m))"
proof -
  let ?a = "active (widget m)"
  have rng: "\<forall>l\<in>set (labels m). in_range l"
    using range by (simp add: labels_def in_range_def)
  have one: "animator_running (update s m) \<longleftrightarrow> \<not> list_all at_bound (labels (update s m))"
    using run by (simp add: running_update)
  have rng': "\<forall>l\<in>set (labels (update s m)). in_range l"
    using rng s by (auto simp: labels_update intro: in_range_step)
  have "\<not> list_all at_bound (labels (update s m))
      \<longleftrightarrow> (\<exists>l\<in>set (labels (update s m)). 0 < activation_progress l \<and> activation_progress l < 1)"
    unfolding list_all_iff using rng' between_iff by blast
  with one have two: "animator_running (update s m)
      \<longleftrightarrow> (\<exists>l\<in>set (labels (update s m)). 0 < activation_progress l \<and> activation_progress l < 1)"
    by simp
  have three: "\<not> animator_running (animator_ticks n s m)
       \<and> (\<forall>l\<in>set (labels (animator_ticks n s m)). activation_progress l = target ?a l)
       \<and> progress_values (update s (animator_ticks n s m))
           = progress_values (animator_ticks n s m)"
    if n: "nat \<lceil>1 / s\<rceil> \<le> n" for n
  proof -
    let ?mn = "animator_ticks n s m"
    from s n have big: "1 \<le> real n * s" by (rule enough_ticks)
    with s have "0 < n" by (cases n) simp_all
    then obtain k where k: "n = Suc k" by (cases n) simp_all
    let ?mk = "animator_ticks k s m"
    from ticks_invariant [OF s rng run, of n]
    have lab: "labels ?mn = map (progress_after n s ?a) (labels m)"
      and act: "active (widget ?mn) = ?a" by blast+
    have tgt: "\<forall>l\<in>set (labels ?mn). at_target ?a l"
      using s rng big by (simp add: lab progress_after_enough)
    have stopped: "\<not> animator_running ?mn"
    proof (cases "animator_running ?mk")
      case True
      then have eq: "?mn = update s ?mk"
        unfolding k by (simp add: ticks_Suc animator_tick_def del: animator_ticks.simps)
      from tgt have "list_all at_bound (labels ?mn)"
        by (auto simp: list_all_iff intro: at_target_at_bound)
      then show ?thesis unfolding eq by (simp add: running_update)
    next
      case False
      then have "?mn = ?mk"
        unfolding k by (simp add: ticks_Suc animator_tick_def del: animator_ticks.simps)
      with False show ?thesis by simp
    qed
    have "map (step_label s (active (widget ?mn))) (labels ?mn) = labels ?mn"
      using tgt s by (simp add: act step_at_target map_idI)
    then have fixed: "progress_values (update s ?mn) = progress_values ?mn"
      using labels_update [of s ?mn] by (simp add: progress_values_def labels_def)
    from stopped tgt fixed show ?thesis by (simp add: at_target_def)
  qed
  from one two three show ?thesis unfolding labels_def by blast
qed

lemmas pie_eval =
  update_def animator_tick_def step_label_def up_def down_def at_bound_def Let_def
  two_label_pie_def hidden_pie_def handle_cursor_def stop_def set_active_label_def
  animator_start_def distance_def reset_def north_def first_label_def in_range_def

theorem animator_stops_at_bounds_witness:
  "(0 :: real) < 1 / 4
   \<and> list_all in_range (label_holder (widget two_label_pie))
   \<and> animator_running two_label_pie
   \<and> animator_running (animator_ticks 3 (1 / 4) two_label_pie)
   \<and> progress_values (animator_ticks 3 (1 / 4) two_label_pie) = [3 / 4, 1 / 4]
   \<and> \<not> animator_running (animator_ticks 4 (1 / 4) two_label_pie)
   \<and> progress_values (animator_ticks 4 (1 / 4) two_label_pie) = [1, 0]
   \<and> animator_ticks 9 (1 / 4) two_label_pie = animator_ticks 4 (1 / 4) two_label_pie"
proof -
  have r: "\<forall>l\<in>set (label_holder (widget two_label_pie)).
             0 \<le> activation_progress l \<and> activation_progress l \<le> 1"
    by (simp add: two_label_pie_def)
  have a: "animator_running two_label_pie" by (simp add: two_label_pie_def)
  have n: "animator_ticks 3 s m = animator_tick s (animator_tick s (animator_tick s m))"
    "animator_ticks 4 s m
       = animator_tick s (animator_tick s (animator_tick s (animator_tick s m)))"
    "animator_ticks 9 s m = animator_ticks 5 s (animator_ticks 4 s m)"
    "animator_ticks 5 s m = animator_tick s
       (animator_tick s (animator_tick s (animator_tick s (animator_tick s m))))"
    for s m
    by (simp_all add: eval_nat_numeral)
  from animator_stops_at_bounds [OF _ r a, of "1 / 4"]
  show ?thesis
    by (simp add: n pie_eval progress_values_def)
qed

text \<open>
  C8, amended: for a cursor closer to the center than the deadzone, \<open>_handle_cursor\<close>
  sets the active label to \<open>None\<close> when the pie widget is visible, whatever the angle
  of the cursor; when the widget is hidden, the step stops the manager instead and leaves
  the active label as it was.
\<close>

theorem handle_cursor_deadzone:
  assumes "distance (circle m) cursor < deadzone (widget m)"
  shows "(is_visible (widget m) \<longrightarrow>
            active (widget (handle_cursor angle_from_point on_angle cursor m)) = None)
       \<and> (\<not> is_visible (widget m) \<longrightarrow>
            handle_cursor angle_from_point on_angle cursor m = stop True m
            \<and> active (widget (handle_cursor angle_from_point on_angle cursor m))
                = active (widget m))"
  using assms
  by (simp add: handle_cursor_def set_active_label_def animator_start_def stop_def Let_def)

lemma distance_3_4: "distance (0, 0) (3, 4) = 5"
proof -
  have "sqrt ((5 :: real)\<^sup>2) = \<bar>5\<bar>" by (rule real_sqrt_abs)
  then have "sqrt 25 = (5 :: real)" by simp
  then show ?thesis by (simp add: distance_def)
qed

theorem handle_cursor_deadzone_witness:
  "distance (circle two_label_pie) (3, 4) < deadzone (widget two_label_pie)
   \<and> is_visible (widget two_label_pie)
   \<and> active (widget two_label_pie) = Some 0
   \<and> active (widget (handle_cursor north first_label (3, 4) two_label_pie)) = None"
proof -
  have d: "distance (circle two_label_pie) (3, 4) < deadzone (widget two_label_pie)"
    by (simp add: two_label_pie_def distance_3_4)
  from handle_cursor_deadzone [OF d, of north first_label] d
  show ?thesis by (simp add: two_label_pie_def)
qed

text \<open>
  C8, as the claim states it, fails: with the widget hidden, a cursor on the center of the
  pie leaves the label 1 active.
\<close>

theorem handle_cursor_hidden_counterexample:
  "distance (circle hidden_pie) (0, 0) < deadzone (widget hidden_pie)
   \<and> active (widget (handle_cursor north first_label (0, 0) hidden_pie)) = Some 1"
  by (simp add: pie_eval)


section \<open>Properties of the controllers\<close>

text \<open>
  C9: \<open>get_label\<close> never raises. For a name that is not in the catalog of presets it
  returns \<open>None\<close>; for a name that is, it returns the pixmap made from the image of the
  preset.
\<close>

theorem get_label_absent_is_None:
  "(presets v = None \<longrightarrow> get_label presets v = Inr None)
   \<and> (\<forall>r. presets v = Some r \<longrightarrow> get_label presets v = Inr (Some (fromImage (image r))))
   \<and> (\<forall>e. get_label presets v \<noteq> Inl e)"
  by (auto simp: get_label_def getitem_def split: option.splits)

theorem get_label_absent_is_None_witness:
  "get_label [''b) Basic-5 Size Opacity'' \<mapsto> Resource (QImage 7)] ''no such preset''
     = Inr None
   \<and> get_label [''b) Basic-5 Size Opacity'' \<mapsto> Resource (QImage 7)]
       ''b) Basic-5 Size Opacity''
     = Inr (Some (fromImage (QImage 7)))"
  using
    get_label_absent_is_None
      [of "[''b) Basic-5 Size Opacity'' \<mapsto> Resource (QImage 7)]" "''no such preset''"]
    get_label_absent_is_None
      [of "[''b) Basic-5 Size Opacity'' \<mapsto> Resource (QImage 7)]"
          "''b) Basic-5 Size Opacity''"]
  by simp

text \<open>
  C10: a call of \<open>set_value\<close> changes the remembered position by at most one. For a
  finite value it raises nothing; when the rounded value equals the position, the
  controller is unchanged and no action is triggered; when it is greater, exactly one
  \<open>edit_redo\<close> is triggered and the position grows by 1; when it is smaller, exactly one
  \<open>edit_undo\<close> is triggered and the position shrinks by 1, however far away the rounded
  value is.
\<close>

theorem set_value_moves_by_one:
  "(case set_value x u of (r, u') \<Rightarrow>
      \<bar>state u' - state u\<bar> \<le> 1
      \<and> (\<forall>q. x = Finite q \<longrightarrow>
            r = None
            \<and> (py_round q = state u \<longrightarrow> u' = u)
            \<and> (state u < py_round q \<longrightarrow>
                 state u' = state u + 1 \<and> triggered u' = triggered u @ [''edit_redo''])
            \<and> (py_round q < state u \<longrightarrow>
                 state u' = state u - 1 \<and> triggered u' = triggered u @ [''edit_undo''])))"
  by (auto simp: set_value_def round_float_def trigger_action_def split: pyfloat.splits)

theorem set_value_moves_by_one_witness:
  "set_value (Finite 5) \<lparr>state = 0, triggered = []\<rparr>
     = (None, \<lparr>state = 1, triggered = [''edit_redo'']\<rparr>)
   \<and> set_value (Finite (- (7 / 2))) \<lparr>state = 0, triggered = []\<rparr>
     = (None, \<lparr>state = - 1, triggered = [''edit_undo'']\<rparr>)
   \<and> set_value (Finite (1 / 2)) \<lparr>state = 0, triggered = []\<rparr>
     = (None, \<lparr>state = 0, triggered = []\<rparr>)"
proof -
  have r: "py_round 5 = 5" "py_round (- (7 / 2)) = - 4" "py_round (1 / 2) = 0"
    by code_simp+
  show ?thesis
    using set_value_moves_by_one [where x = "Finite 5" and u = "\<lparr>state = 0, triggered = []\<rparr>"]
    by (simp add: set_value_def round_float_def trigger_action_def r)
qed

end
